theory Spec2Isabelle
  imports Complex_Main "HOL-Library.Multiset"
begin

section \<open>Numbers of the notebook\<close>

text \<open>
  The notebook \<^verbatim>\<open>baycal_elm-latest.ipynb\<close> computes with NumPy doubles. A double is
  modelled by its class: not-a-number, one of the two infinities, or a finite value, which
  is taken as the real number it stands for. Rounding, overflow of finite values and the
  sign of zero are not part of the model (a zero is a positive zero); the special values
  follow IEEE 754, which NumPy applies without raising (it only warns).

  What is stated below about the code therefore keeps to what the rounding cannot change:
  which branch is taken and which calls are made, the expression a result is computed by
  (its value, up to the rounding of that expression), comparisons of given doubles, and,
  where a value decides what happens next, inputs for which every operation is exact.
\<close>

datatype float64 = NaN | NegInf | Finite real | PosInf

fun isfinite :: "float64 \<Rightarrow> bool" where
  "isfinite (Finite r) = True"
| "isfinite x = False"

fun f_neg :: "float64 \<Rightarrow> float64" where
  "f_neg NaN = NaN"
| "f_neg NegInf = PosInf"
| "f_neg PosInf = NegInf"
| "f_neg (Finite r) = Finite (- r)"

fun f_add :: "float64 \<Rightarrow> float64 \<Rightarrow> float64" where
  "f_add NaN y = NaN"
| "f_add x NaN = NaN"
| "f_add (Finite a) (Finite b) = Finite (a + b)"
| "f_add PosInf NegInf = NaN"
| "f_add NegInf PosInf = NaN"
| "f_add PosInf y = PosInf"
| "f_add NegInf y = NegInf"
| "f_add (Finite a) y = y"

definition f_sub :: "float64 \<Rightarrow> float64 \<Rightarrow> float64" where
  "f_sub x y = f_add x (f_neg y)"

text \<open>The infinity with the sign of a finite factor; a zero factor gives not-a-number.\<close>

definition inf_times :: "bool \<Rightarrow> real \<Rightarrow> float64" where
  "inf_times positive r =
     (if r = 0 then NaN else if (0 < r) = positive then PosInf else NegInf)"

fun f_mul :: "float64 \<Rightarrow> float64 \<Rightarrow> float64" where
  "f_mul NaN y = NaN"
| "f_mul x NaN = NaN"
| "f_mul (Finite a) (Finite b) = Finite (a * b)"
| "f_mul (Finite a) PosInf = inf_times True a"
| "f_mul (Finite a) NegInf = inf_times False a"
| "f_mul PosInf (Finite b) = inf_times True b"
| "f_mul NegInf (Finite b) = inf_times False b"
| "f_mul PosInf PosInf = PosInf"
| "f_mul NegInf NegInf = PosInf"
| "f_mul PosInf NegInf = NegInf"
| "f_mul NegInf PosInf = NegInf"

fun f_div :: "float64 \<Rightarrow> float64 \<Rightarrow> float64" where
  "f_div NaN y = NaN"
| "f_div x NaN = NaN"
| "f_div (Finite a) (Finite b) =
     (if b = 0 then (if a = 0 then NaN else if 0 < a then PosInf else NegInf)
      else Finite (a / b))"
| "f_div (Finite a) y = Finite 0"
| "f_div PosInf (Finite b) = (if 0 \<le> b then PosInf else NegInf)"
| "f_div NegInf (Finite b) = (if 0 \<le> b then NegInf else PosInf)"
| "f_div x y = NaN"

text \<open>\<^verbatim>\<open>x**2\<close> and \<^verbatim>\<open>np.sqrt(x)\<close>.\<close>

fun f_square :: "float64 \<Rightarrow> float64" where
  "f_square NaN = NaN"
| "f_square (Finite r) = Finite (r ^ 2)"
| "f_square x = PosInf"

fun f_sqrt :: "float64 \<Rightarrow> float64" where
  "f_sqrt (Finite r) = (if r < 0 then NaN else Finite (sqrt r))"
| "f_sqrt PosInf = PosInf"
| "f_sqrt x = NaN"

text \<open>Comparisons: every comparison with not-a-number is false.\<close>

fun f_less :: "float64 \<Rightarrow> float64 \<Rightarrow> bool" where
  "f_less NaN y = False"
| "f_less x NaN = False"
| "f_less (Finite a) (Finite b) = (a < b)"
| "f_less x NegInf = False"
| "f_less PosInf y = False"
| "f_less x y = True"

definition f_le :: "float64 \<Rightarrow> float64 \<Rightarrow> bool" where
  "f_le x y = (f_less x y \<or> (x = y \<and> x \<noteq> NaN))"

definition f_ge :: "float64 \<Rightarrow> float64 \<Rightarrow> bool" where
  "f_ge x y = f_le y x"

definition f_greater :: "float64 \<Rightarrow> float64 \<Rightarrow> bool" where
  "f_greater x y = f_less y x"

section \<open>The posterior\<close>

text \<open>
  Exceptions of the notebook. \<open>PredictorRaised\<close> stands for whatever exception the
  surrogate's \<^verbatim>\<open>predict\<close> raises; the notebook has no handler for any of them.
\<close>

datatype py_error =
  PredictorRaised | ZeroDivisionError | ValueError | IndexError | AssertionError

type_synonym theta = "float64 list"

text \<open>
  The module-level names the posterior reads: the loaded surrogate \<^verbatim>\<open>gpr_model\<close>
  (its \<^verbatim>\<open>predict([theta])[0]\<close>, which returns a double or raises) and the target
  \<^verbatim>\<open>desired_nrmse\<close>, \<^verbatim>\<open>desired_std\<close>.
\<close>

record globals =
  gpr_model :: "theta \<Rightarrow> py_error + float64"
  desired_nrmse :: real
  desired_std :: real

text \<open>
  \<^verbatim>\<open>def lnprior(theta):
    if np.all(theta >= 0) and np.all(theta <= 1):
        return 0.0
    return -np.inf\<close>
\<close>

definition lnprior :: "theta \<Rightarrow> float64" where
  "lnprior th =
     (if list_all (\<lambda>x. f_ge x (Finite 0)) th \<and> list_all (\<lambda>x. f_le x (Finite 1)) th
      then Finite 0 else NegInf)"

text \<open>
  The surrogate is the only effect of the posterior: every function that may call it
  takes the log of the calls made so far (the arguments, in order) and returns it extended.

  \<^verbatim>\<open>def lnlike(theta):
    predicted_nrmse = gpr_model.predict([theta])[0]
    return -0.5 * ((predicted_nrmse - desired_nrmse) / desired_std)**2\<close>
\<close>

definition gaussian_loglike :: "globals \<Rightarrow> float64 \<Rightarrow> float64" where
  "gaussian_loglike g predicted_nrmse =
     f_mul (Finite (- (1 / 2)))
       (f_square (f_div (f_sub predicted_nrmse (Finite (desired_nrmse g)))
                        (Finite (desired_std g))))"

definition lnlike :: "globals \<Rightarrow> theta \<Rightarrow> theta list \<Rightarrow> (py_error + float64) \<times> theta list" where
  "lnlike g th calls =
     (case gpr_model g th of
        Inl e \<Rightarrow> (Inl e, calls @ [th])
      | Inr predicted_nrmse \<Rightarrow> (Inr (gaussian_loglike g predicted_nrmse), calls @ [th]))"

text \<open>
  \<^verbatim>\<open>def lnprob(theta):
    lp = lnprior(theta)
    if not np.isfinite(lp):
        return -np.inf
    return lp + lnlike(theta)\<close>
\<close>

definition lnprob :: "globals \<Rightarrow> theta \<Rightarrow> theta list \<Rightarrow> (py_error + float64) \<times> theta list" where
  "lnprob g th calls =
     (let lp = lnprior th in
      if \<not> isfinite lp then (Inr NegInf, calls)
      else (case lnlike g th calls of
              (Inl e, calls') \<Rightarrow> (Inl e, calls')
            | (Inr ll, calls') \<Rightarrow> (Inr (f_add lp ll), calls')))"

text \<open>The target the notebook sets, with a surrogate \<open>m\<close>.\<close>

definition notebook_globals :: "(theta \<Rightarrow> py_error + float64) \<Rightarrow> globals" where
  "notebook_globals m = \<lparr>gpr_model = m, desired_nrmse = 4 / 10, desired_std = 2 / 100\<rparr>"

section \<open>NumPy reductions\<close>

text \<open>
  \<^verbatim>\<open>np.sum\<close>, \<^verbatim>\<open>np.mean\<close> and \<^verbatim>\<open>np.var(..., ddof=1)\<close> along one axis, on
  the list of the values along that axis. The mean of no values is \<open>0 / 0\<close>, and the
  variance divides by \<open>max (n - ddof) 0\<close>; both only warn.
\<close>

definition np_sum :: "float64 list \<Rightarrow> float64" where
  "np_sum xs = foldr f_add xs (Finite 0)"

definition np_mean :: "float64 list \<Rightarrow> float64" where
  "np_mean xs = f_div (np_sum xs) (Finite (real (length xs)))"

definition np_var_ddof1 :: "float64 list \<Rightarrow> float64" where
  "np_var_ddof1 xs =
     (let arrmean = np_mean xs in
      f_div (np_sum (map (\<lambda>x. f_square (f_sub x arrmean)) xs))
            (Finite (real (length xs - 1))))"

section \<open>The Gelman-Rubin diagnostic\<close>

text \<open>
  A three-dimensional array: its shape and its entries, read at (chain, step, parameter).
\<close>

record chain_array =
  n_chains :: nat
  n_steps :: nat
  n_parameters :: nat
  entry :: "nat \<Rightarrow> nat \<Rightarrow> nat \<Rightarrow> float64"

text \<open>The values of parameter \<open>p\<close> along the steps of chain \<open>c\<close>.\<close>

definition steps_of :: "chain_array \<Rightarrow> nat \<Rightarrow> nat \<Rightarrow> float64 list" where
  "steps_of A c p = map (\<lambda>s. entry A c s p) [0..<n_steps A]"

text \<open>\<^verbatim>\<open>chain_means = np.mean(chains, axis=1)\<close>\<close>

definition chain_means :: "chain_array \<Rightarrow> nat \<Rightarrow> nat \<Rightarrow> float64" where
  "chain_means A c p = np_mean (steps_of A c p)"

text \<open>\<^verbatim>\<open>overall_mean = np.mean(chains, axis=(0, 1))\<close>: the mean of all entries of a parameter.\<close>

definition overall_mean :: "chain_array \<Rightarrow> nat \<Rightarrow> float64" where
  "overall_mean A p = np_mean (concat (map (\<lambda>c. steps_of A c p) [0..<n_chains A]))"

text \<open>\<^verbatim>\<open>B_over_n = np.sum((chain_means - overall_mean)**2, axis=0) / (n_chains - 1)\<close>\<close>

definition B_over_n :: "chain_array \<Rightarrow> nat \<Rightarrow> float64" where
  "B_over_n A p =
     f_div (np_sum (map (\<lambda>c. f_square (f_sub (chain_means A c p) (overall_mean A p)))
                        [0..<n_chains A]))
           (Finite (of_int (int (n_chains A) - 1)))"

text \<open>\<^verbatim>\<open>W = np.mean(np.var(chains, axis=1, ddof=1), axis=0)\<close>\<close>

definition W :: "chain_array \<Rightarrow> nat \<Rightarrow> float64" where
  "W A p = np_mean (map (\<lambda>c. np_var_ddof1 (steps_of A c p)) [0..<n_chains A])"

text \<open>
  \<^verbatim>\<open>var_hat_plus = ((n_steps - 1) / n_steps) * W + B_over_n\<close>, where the quotient is
  one of Python integers (it raises for \<open>n_steps = 0\<close>, see \<open>gelman_rubin\<close>).
\<close>

definition var_hat_plus :: "chain_array \<Rightarrow> nat \<Rightarrow> float64" where
  "var_hat_plus A p =
     f_add (f_mul (Finite (of_int (int (n_steps A) - 1) / real (n_steps A))) (W A p))
           (B_over_n A p)"

text \<open>\<^verbatim>\<open>R_hat = np.sqrt(var_hat_plus / W)\<close>\<close>

definition R_hat :: "chain_array \<Rightarrow> nat \<Rightarrow> float64" where
  "R_hat A p = f_sqrt (f_div (var_hat_plus A p) (W A p))"

definition gelman_rubin :: "chain_array \<Rightarrow> py_error + float64 list" where
  "gelman_rubin A =
     (if n_steps A = 0 then Inl ZeroDivisionError
      else Inr (map (R_hat A) [0..<n_parameters A]))"

text \<open>The value of a finite double.\<close>

fun real_of :: "float64 \<Rightarrow> real" where
  "real_of (Finite r) = r"
| "real_of x = 0"

section \<open>Burn-in and the convergence check\<close>

text \<open>
  \<^verbatim>\<open>burnin = int(nsteps // 2)  # discard the first half of the steps
chains_burned = sampler.chain[:, burnin:, :]\<close>

  A slice \<^verbatim>\<open>[k:]\<close> of an axis of length \<open>n\<close> starts at \<open>k\<close> clipped to the axis, a
  negative \<open>k\<close> counting from the end.
\<close>

definition burnin :: "int \<Rightarrow> int" where
  "burnin nsteps = nsteps div 2"

definition slice_start :: "nat \<Rightarrow> int \<Rightarrow> nat" where
  "slice_start n k = (if k < 0 then nat (max 0 (int n + k)) else min n (nat k))"

definition slice_steps_from :: "chain_array \<Rightarrow> int \<Rightarrow> chain_array" where
  "slice_steps_from A k =
     (let start = slice_start (n_steps A) k in
      A\<lparr>n_steps := n_steps A - start, entry := \<lambda>c s p. entry A c (start + s) p\<rparr>)"

definition chains_burned :: "chain_array \<Rightarrow> int \<Rightarrow> chain_array" where
  "chains_burned sampler_chain nsteps = slice_steps_from sampler_chain (burnin nsteps)"

text \<open>The fraction of the steps the notebook discards: the first half.\<close>

definition burn_in_fraction :: real where
  "burn_in_fraction = 1 / 2"

text \<open>
  What the check writes, in order: the line of a parameter (numbered from 1) with its
  value, the warning line of a parameter, and the red notice.

  \<^verbatim>\<open>for i, R_hat in enumerate(R_hat_values):
    print(f"Parameter {i+1}: R_hat = {R_hat:.3f}")
    if R_hat > 1.1:
        print(f"Warning: Parameter {i+1} might not have converged (R_hat = {R_hat:.3f}).")
        display(HTML('... Stopping because of non-convergence of one or more parameters ...'))
        assert False\<close>
\<close>

datatype printed = PrintRhat nat float64 | PrintWarning nat float64 | DisplayStopping

text \<open>
  The literal \<^verbatim>\<open>1.1\<close> of the check is a double: the one nearest to eleven tenths, a little
  above it.
\<close>

definition double_1_1 :: real where
  "double_1_1 = 2476979795053773 / 2251799813685248"

fun rhat_check :: "nat \<Rightarrow> float64 list \<Rightarrow> printed list \<Rightarrow> (py_error + unit) \<times> printed list" where
  "rhat_check i [] out = (Inr (), out)"
| "rhat_check i (r # rs) out =
     (let out1 = out @ [PrintRhat (i + 1) r] in
      if f_greater r (Finite double_1_1)
      then (Inl AssertionError, out1 @ [PrintWarning (i + 1) r, DisplayStopping])
      else rhat_check (i + 1) rs out1)"

text \<open>The cell from the slice on: it ends with the values, or with the exception raised.\<close>

definition diagnostics_cell ::
  "chain_array \<Rightarrow> int \<Rightarrow> printed list \<Rightarrow> (py_error + float64 list) \<times> printed list" where
  "diagnostics_cell sampler_chain nsteps out =
     (case gelman_rubin (chains_burned sampler_chain nsteps) of
        Inl e \<Rightarrow> (Inl e, out)
      | Inr R_hat_values \<Rightarrow>
          (case rhat_check 0 R_hat_values out of
             (Inl e, out') \<Rightarrow> (Inl e, out')
           | (Inr u, out') \<Rightarrow> (Inr R_hat_values, out')))"

text \<open>
  The specification's reading of the gate: the parameters (numbered from 1) whose value
  exceeds the threshold, with their values.
\<close>

definition offending :: "float64 list \<Rightarrow> (nat \<times> float64) list" where
  "offending rs =
     filter (\<lambda>(i, r). f_greater r (Finite double_1_1)) (zip [1..<Suc (length rs)] rs)"

section \<open>Propagation through the surrogate\<close>

text \<open>
  \<^verbatim>\<open>np.random.choice(a, size, replace=False)\<close> of the global generator raises when
  more is asked than there is, and otherwise returns \<^verbatim>\<open>permutation(a)[:size]\<close>. The
  permutation is \<^verbatim>\<open>arange(a)\<close> shuffled in place:

  \<^verbatim>\<open>for i in reversed(range(1, n)):
    j = random_interval(i)      # a number from 0 to i
    x[i], x[j] = x[j], x[i]\<close>

  The generator is not part of the model: \<open>draw i\<close> is the number it delivers in the
  round for position \<open>i\<close>, brought between 0 and \<open>i\<close>. As \<open>draw\<close> ranges over all
  functions, every outcome of the generator is covered.
\<close>

fun shuffle_raw :: "(nat \<Rightarrow> nat) \<Rightarrow> nat \<Rightarrow> nat list \<Rightarrow> nat list" where
  "shuffle_raw draw 0 x = x"
| "shuffle_raw draw (Suc i') x =
     (let i = Suc i'; j = draw i mod (i + 1) in
      shuffle_raw draw i' (x[i := x ! j, j := x ! i]))"

definition permutation :: "(nat \<Rightarrow> nat) \<Rightarrow> nat \<Rightarrow> nat list" where
  "permutation draw n = shuffle_raw draw (n - 1) [0..<n]"

definition random_choice :: "(nat \<Rightarrow> nat) \<Rightarrow> nat \<Rightarrow> nat \<Rightarrow> py_error + nat list" where
  "random_choice draw a k =
     (if a < k then Inl ValueError else Inr (take k (permutation draw a)))"

text \<open>\<^verbatim>\<open>samples[indices]\<close>: the rows at the indices, in their order.\<close>

definition take_rows :: "'a list \<Rightarrow> nat list \<Rightarrow> py_error + 'a list" where
  "take_rows samples indices =
     (if list_all (\<lambda>i. i < length samples) indices
      then Inr (map (\<lambda>i. samples ! i) indices) else Inl IndexError)"

text \<open>
  \<^verbatim>\<open>nrmse_values = []
for sample in selected_samples:
    nrmse = gpr_model.predict(sample.reshape(1, -1))
    nrmse_values.append(nrmse)\<close>
\<close>

fun predict_loop ::
  "globals \<Rightarrow> theta list \<Rightarrow> float64 list \<Rightarrow> theta list \<Rightarrow> (py_error + float64 list) \<times> theta list" where
  "predict_loop g [] nrmse_values calls = (Inr nrmse_values, calls)"
| "predict_loop g (sample # rest) nrmse_values calls =
     (case gpr_model g sample of
        Inl e \<Rightarrow> (Inl e, calls @ [sample])
      | Inr nrmse \<Rightarrow> predict_loop g rest (nrmse_values @ [nrmse]) (calls @ [sample]))"

text \<open>
  \<^verbatim>\<open>np.percentile(values, q)\<close> of NumPy 1.23 (the version the notebook ran on), default
  method: the values are sorted, the virtual index \<open>(n - 1) * q / 100\<close> is split into
  the index below it and the rest \<open>gamma\<close>, and the two neighbours are interpolated. A
  not-a-number among the values makes the result not-a-number; no values raise.
\<close>

fun insort_f :: "float64 \<Rightarrow> float64 list \<Rightarrow> float64 list" where
  "insort_f x [] = [x]"
| "insort_f x (y # ys) = (if f_le x y then x # y # ys else y # insort_f x ys)"

definition sort_f :: "float64 list \<Rightarrow> float64 list" where
  "sort_f xs = foldr insort_f xs []"

definition lerp :: "float64 \<Rightarrow> float64 \<Rightarrow> real \<Rightarrow> float64" where
  "lerp a b t =
     (let diff_b_a = f_sub b a in
      if 1 / 2 \<le> t then f_sub b (f_mul diff_b_a (Finite (1 - t)))
      else f_add a (f_mul diff_b_a (Finite t)))"

definition np_percentile :: "float64 list \<Rightarrow> real \<Rightarrow> py_error + float64" where
  "np_percentile a q =
     (if q < 0 \<or> 100 < q then Inl ValueError
      else if a = [] then Inl IndexError
      else if list_ex (\<lambda>x. x = NaN) a then Inr NaN
      else
        (let arr = sort_f a;
             virtual_index = (real (length a) - 1) * (q / 100) in
         if real (length a) - 1 \<le> virtual_index
         then Inr (lerp (last arr) (last arr) (virtual_index + 1))
         else
           (let previous_index = nat \<lfloor>virtual_index\<rfloor> in
            Inr (lerp (arr ! previous_index) (arr ! (previous_index + 1))
                      (virtual_index - real previous_index)))))"

text \<open>
  The cell: from the pool \<open>samples\<close> to the printed mean and bounds. The notebook's
  \<open>n_samples\<close> is 50.

  \<^verbatim>\<open>selected_samples = samples[np.random.choice(len(samples), n_samples, replace=False)]
...
mean_nrmse = np.mean(nrmse_values)
lower_bound = np.percentile(nrmse_values, 2.5)
upper_bound = np.percentile(nrmse_values, 97.5)\<close>
\<close>

definition selected_indices :: "(nat \<Rightarrow> nat) \<Rightarrow> theta list \<Rightarrow> nat \<Rightarrow> py_error + nat list" where
  "selected_indices draw samples n_samples = random_choice draw (length samples) n_samples"

definition summary_statistics :: "float64 list \<Rightarrow> py_error + float64 \<times> float64 \<times> float64" where
  "summary_statistics nrmse_values =
     (let mean_nrmse = np_mean nrmse_values in
      case np_percentile nrmse_values (25 / 10) of
        Inl e \<Rightarrow> Inl e
      | Inr lower_bound \<Rightarrow>
          (case np_percentile nrmse_values (975 / 10) of
             Inl e \<Rightarrow> Inl e
           | Inr upper_bound \<Rightarrow> Inr (mean_nrmse, lower_bound, upper_bound)))"

definition propagation_cell ::
  "globals \<Rightarrow> (nat \<Rightarrow> nat) \<Rightarrow> theta list \<Rightarrow> nat \<Rightarrow> theta list
     \<Rightarrow> (py_error + float64 \<times> float64 \<times> float64) \<times> theta list" where
  "propagation_cell g draw samples n_samples calls =
     (case selected_indices draw samples n_samples of
        Inl e \<Rightarrow> (Inl e, calls)
      | Inr indices \<Rightarrow>
          (case take_rows samples indices of
             Inl e \<Rightarrow> (Inl e, calls)
           | Inr selected_samples \<Rightarrow>
               (case predict_loop g selected_samples [] calls of
                  (Inl e, calls') \<Rightarrow> (Inl e, calls')
                | (Inr nrmse_values, calls') \<Rightarrow> (summary_statistics nrmse_values, calls'))))"

section \<open>The cells in order\<close>

text \<open>
  \<^verbatim>\<open>samples = chains_burned.reshape((-1, 5))\<close>: the entries in row-major order, cut into
  rows of five; it raises when they do not fill whole rows.
\<close>

definition flat_entries :: "chain_array \<Rightarrow> float64 list" where
  "flat_entries A =
     concat (map (\<lambda>c. concat (map (\<lambda>s. map (\<lambda>p. entry A c s p) [0..<n_parameters A])
                                    [0..<n_steps A])) [0..<n_chains A])"

definition reshape_rows5 :: "chain_array \<Rightarrow> py_error + theta list" where
  "reshape_rows5 A =
     (let flat = flat_entries A in
      if length flat mod 5 \<noteq> 0 then Inl ValueError
      else Inr (map (\<lambda>i. take 5 (drop (5 * i) flat)) [0..<length flat div 5]))"

text \<open>
  The notebook is a sequence of cells, run in order; a cell that raises ends the run, and no
  later cell is run. After the cell of the diagnostic and its check come the cells that
  build \<open>samples\<close> from the burned chain and that propagate them through the surrogate.
  (The cells between them that only store the chain or draw figures are left out.) The run
  ends with the exception raised or with the statistics, and with what was written and the
  log of the surrogate calls.
\<close>

definition later_cells ::
  "globals \<Rightarrow> (nat \<Rightarrow> nat) \<Rightarrow> chain_array \<Rightarrow> nat \<Rightarrow> theta list
     \<Rightarrow> (py_error + float64 \<times> float64 \<times> float64) \<times> theta list" where
  "later_cells g draw burned n_samples calls =
     (case reshape_rows5 burned of
        Inl e \<Rightarrow> (Inl e, calls)
      | Inr samples \<Rightarrow> propagation_cell g draw samples n_samples calls)"

definition run_from_check ::
  "globals \<Rightarrow> (nat \<Rightarrow> nat) \<Rightarrow> chain_array \<Rightarrow> float64 list \<Rightarrow> nat \<Rightarrow> printed list \<Rightarrow> theta list
     \<Rightarrow> (py_error + float64 \<times> float64 \<times> float64) \<times> printed list \<times> theta list" where
  "run_from_check g draw burned R_hat_values n_samples out calls =
     (case rhat_check 0 R_hat_values out of
        (Inl e, out') \<Rightarrow> (Inl e, out', calls)
      | (Inr u, out') \<Rightarrow>
          (case later_cells g draw burned n_samples calls of
             (result, calls') \<Rightarrow> (result, out', calls')))"

definition run_cells ::
  "globals \<Rightarrow> (nat \<Rightarrow> nat) \<Rightarrow> chain_array \<Rightarrow> int \<Rightarrow> nat \<Rightarrow> printed list \<Rightarrow> theta list
     \<Rightarrow> (py_error + float64 \<times> float64 \<times> float64) \<times> printed list \<times> theta list" where
  "run_cells g draw sampler_chain nsteps n_samples out calls =
     (let burned = chains_burned sampler_chain nsteps in
      case gelman_rubin burned of
        Inl e \<Rightarrow> (Inl e, out, calls)
      | Inr R_hat_values \<Rightarrow> run_from_check g draw burned R_hat_values n_samples out calls)"

section \<open>Example inputs\<close>

text \<open>
  Sampler chains of two walkers and four steps, with entries on which the doubles compute
  exactly. In one parameter: walkers that never move from the same point, walkers that
  never move from two different points, and walkers that drift in parallel.
\<close>

definition frozen :: chain_array where
  "frozen = \<lparr>n_chains = 2, n_steps = 4, n_parameters = 1, entry = (\<lambda>c s p. Finite 1)\<rparr>"

definition stuck :: chain_array where
  "stuck = \<lparr>n_chains = 2, n_steps = 4, n_parameters = 1,
             entry = (\<lambda>c s p. Finite (real c))\<rparr>"

definition drifting :: chain_array where
  "drifting = \<lparr>n_chains = 2, n_steps = 4, n_parameters = 1,
                entry = (\<lambda>c s p. Finite (real (c + s)))\<rparr>"

text \<open>
  In three parameters: walkers that alternate between two points each, the pairs of points
  of the two walkers a little apart in the first parameter and further apart in the second
  and the third. In five parameters: the same as in the first of these, in each.
\<close>

definition parted :: chain_array where
  "parted = \<lparr>n_chains = 2, n_steps = 4, n_parameters = 3,
              entry = (\<lambda>c s p. Finite (real
                ([[[0, 8], [2, 10]], [[0, 16], [14, 30]], [[0, 32], [62, 94]]] ! p ! c ! (s mod 2))))\<rparr>"

definition steady :: chain_array where
  "steady = \<lparr>n_chains = 2, n_steps = 4, n_parameters = 5,
              entry = (\<lambda>c s p. Finite (real (2 * c + 8 * (s mod 2))))\<rparr>"

text \<open>A pool of four one-parameter samples, and a surrogate that adds the parameters up.\<close>

definition pool4 :: "theta list" where
  "pool4 = [[Finite 0], [Finite 8], [Finite 2], [Finite 10]]"


definition sum_model :: "theta \<Rightarrow> py_error + float64" where
  "sum_model th = Inr (np_sum th)"

section \<open>Properties of the posterior\<close>

lemma f_add_zero_left: "f_add (Finite 0) x = x"
  by (cases x) simp_all

lemma in_unit_interval_prior:
  assumes "\<forall>x\<in>set th. \<exists>r. x = Finite r \<and> 0 \<le> r \<and> r \<le> 1"
  shows "lnprior th = Finite 0"
proof -
  have "list_all (\<lambda>x. f_ge x (Finite 0)) th"
    using assms by (auto simp: list_all_iff f_ge_def f_le_def)
  moreover have "list_all (\<lambda>x. f_le x (Finite 1)) th"
    using assms by (auto simp: list_all_iff f_le_def)
  ultimately show ?thesis by (simp add: lnprior_def)
qed

lemma below_zero_not_ge: "f_less x (Finite 0) \<Longrightarrow> \<not> f_ge x (Finite 0)"
  by (cases x) (auto simp: f_ge_def f_le_def)

lemma above_one_not_le: "f_greater x (Finite 1) \<Longrightarrow> \<not> f_le x (Finite 1)"
  by (cases x) (auto simp: f_greater_def f_le_def)

lemma outside_prior:
  assumes "x \<in> set th" and "f_less x (Finite 0) \<or> f_greater x (Finite 1)"
  shows "lnprior th = NegInf"
  using assms below_zero_not_ge above_one_not_le
  by (auto simp: lnprior_def list_all_iff)

lemma loglike_infinite:
  "gaussian_loglike g PosInf = NegInf" "gaussian_loglike g NegInf = NegInf"
  by (simp_all add: gaussian_loglike_def f_sub_def inf_times_def)

text \<open>
  Claim C1. For every \<open>theta\<close> all of whose components are finite values in \<open>[0, 1]\<close>,
  and a surrogate that returns \<open>predicted\<close> for it, \<open>lnprob\<close> returns
  \<open>-0.5 * ((predicted - desired_nrmse) / desired_std)\<^sup>2\<close>.
\<close>

theorem lnprob_in_bounds:
  assumes "\<forall>x\<in>set th. \<exists>r. x = Finite r \<and> 0 \<le> r \<and> r \<le> 1"
    and "gpr_model g th = Inr predicted"
  shows "fst (lnprob g th calls) =
    Inr (f_mul (Finite (- (1 / 2)))
          (f_square (f_div (f_sub predicted (Finite (desired_nrmse g))) (Finite (desired_std g)))))"
  using in_unit_interval_prior[OF assms(1)] assms(2)
  by (simp add: lnprob_def lnlike_def gaussian_loglike_def f_add_zero_left)

theorem lnprob_in_bounds_witness:
  "fst (lnprob (notebook_globals (\<lambda>th. Inr (Finite (5 / 10)))) [Finite 0, Finite 1] []) =
     Inr (Finite (- (25 / 2)))"
proof -
  have h: "\<forall>x\<in>set [Finite 0, Finite 1]. \<exists>r. x = Finite r \<and> 0 \<le> r \<and> r \<le> 1"
    by auto
  show ?thesis
    using lnprob_in_bounds[OF h, of "notebook_globals (\<lambda>th. Inr (Finite (5 / 10)))"
        "Finite (5 / 10)" "[]"]
    by (simp add: notebook_globals_def f_sub_def power2_eq_square)
qed

text \<open>
  Claim C2. When some component of \<open>theta\<close> is below 0 or above 1, \<open>lnprob\<close> returns
  minus infinity and the log of surrogate calls is unchanged; in every call the log is
  unchanged or extended by the one call on \<open>theta\<close>.
\<close>

theorem lnprob_out_of_bounds:
  "((\<exists>x\<in>set th. f_less x (Finite 0) \<or> f_greater x (Finite 1)) \<longrightarrow>
      lnprob g th calls = (Inr NegInf, calls)) \<and>
   (snd (lnprob g th calls) = calls \<or> snd (lnprob g th calls) = calls @ [th])"
proof
  show "(\<exists>x\<in>set th. f_less x (Finite 0) \<or> f_greater x (Finite 1)) \<longrightarrow>
      lnprob g th calls = (Inr NegInf, calls)"
    using outside_prior by (auto simp: lnprob_def)
  show "snd (lnprob g th calls) = calls \<or> snd (lnprob g th calls) = calls @ [th]"
    by (simp add: lnprob_def lnlike_def Let_def split: sum.splits)
qed

theorem lnprob_out_of_bounds_witness:
  "lnprob (notebook_globals (\<lambda>th. Inr (Finite 0))) [Finite (1 / 2), Finite (3 / 2)] [] =
     (Inr NegInf, [])"
  using lnprob_out_of_bounds[of "[Finite (1 / 2), Finite (3 / 2)]"
      "notebook_globals (\<lambda>th. Inr (Finite 0))" "[]"]
  by (simp add: f_greater_def)

text \<open>
  Claim C6 says that a surrogate that raises or returns a non-finite value makes the
  posterior minus infinity. It does not: the exception leaves \<open>lnprob\<close>, and a returned
  not-a-number comes back as not-a-number.
\<close>

theorem lnprob_predictor_failure_counterexample:
  "fst (lnprob (notebook_globals (\<lambda>th. Inl PredictorRaised)) [Finite (1 / 2)] []) = Inl PredictorRaised \<and>
   fst (lnprob (notebook_globals (\<lambda>th. Inl PredictorRaised)) [Finite (1 / 2)] []) \<noteq> Inr NegInf \<and>
   fst (lnprob (notebook_globals (\<lambda>th. Inr NaN)) [Finite (1 / 2)] []) = Inr NaN \<and>
   fst (lnprob (notebook_globals (\<lambda>th. Inr NaN)) [Finite (1 / 2)] []) \<noteq> Inr NegInf"
  by (simp add: lnprob_def lnprior_def lnlike_def gaussian_loglike_def notebook_globals_def
      f_ge_def f_le_def f_sub_def)

text \<open>
  Claim C6, amended. For \<open>theta\<close> within the bounds: an exception of the surrogate leaves
  \<open>lnprob\<close> as it is, after the one call; a returned not-a-number is returned as
  not-a-number; a returned infinity, of either sign, gives minus infinity.
\<close>

theorem lnprob_predictor_failure:
  assumes "\<forall>x\<in>set th. \<exists>r. x = Finite r \<and> 0 \<le> r \<and> r \<le> 1"
  shows "(gpr_model g th = Inl e \<longrightarrow> lnprob g th calls = (Inl e, calls @ [th])) \<and>
         (gpr_model g th = Inr NaN \<longrightarrow> lnprob g th calls = (Inr NaN, calls @ [th])) \<and>
         (gpr_model g th = Inr PosInf \<or> gpr_model g th = Inr NegInf \<longrightarrow>
            lnprob g th calls = (Inr NegInf, calls @ [th]))"
  using in_unit_interval_prior[OF assms] loglike_infinite[of g]
  by (auto simp: lnprob_def lnlike_def gaussian_loglike_def f_sub_def)

theorem lnprob_predictor_failure_witness:
  "lnprob (notebook_globals (\<lambda>th. Inl PredictorRaised)) [Finite 1] [] =
     (Inl PredictorRaised, [[Finite 1]]) \<and>
   lnprob (notebook_globals (\<lambda>th. Inr NaN)) [Finite 1] [] = (Inr NaN, [[Finite 1]]) \<and>
   lnprob (notebook_globals (\<lambda>th. Inr PosInf)) [Finite 1] [] = (Inr NegInf, [[Finite 1]])"
proof -
  have h: "\<forall>x\<in>set [Finite 1]. \<exists>r. x = Finite r \<and> 0 \<le> r \<and> r \<le> 1"
    by auto
  show ?thesis
    using lnprob_predictor_failure[OF h, of "notebook_globals (\<lambda>th. Inl PredictorRaised)"
        PredictorRaised "[]"]
      lnprob_predictor_failure[OF h, of "notebook_globals (\<lambda>th. Inr NaN)" _ "[]"]
      lnprob_predictor_failure[OF h, of "notebook_globals (\<lambda>th. Inr PosInf)" _ "[]"]
    by (simp add: notebook_globals_def)
qed

section \<open>Properties of the Gelman-Rubin diagnostic\<close>

subsection \<open>Sums and means of finite values\<close>

lemma isfinite_iff: "isfinite x \<longleftrightarrow> x = Finite (real_of x)"
  by (cases x) simp_all

lemma np_sum_Nil: "np_sum [] = Finite 0"
  by (simp add: np_sum_def)

lemma np_sum_Cons: "np_sum (x # xs) = f_add x (np_sum xs)"
  by (simp add: np_sum_def)

lemma length_steps_of: "length (steps_of A c p) = n_steps A"
  by (simp add: steps_of_def)

lemma length_concat_steps:
  "length (concat (map (\<lambda>c. steps_of A c p) cs)) = length cs * n_steps A"
  by (induction cs) (simp_all add: length_steps_of)

lemma np_sum_map_Finite: "np_sum (map (\<lambda>i. Finite (f i)) is) = Finite (sum_list (map f is))"
  by (induction "is") (simp_all add: np_sum_Nil np_sum_Cons)

lemma np_sum_finite:
  "\<forall>x\<in>set xs. isfinite x \<Longrightarrow> np_sum xs = Finite (sum_list (map real_of xs))"
proof (induction xs)
  case Nil
  then show ?case by (simp add: np_sum_Nil)
next
  case (Cons x xs)
  then obtain r where "x = Finite r" by (auto simp: isfinite_iff)
  with Cons show ?case by (simp add: np_sum_Cons)
qed

lemma np_mean_finite:
  assumes "\<forall>x\<in>set xs. isfinite x" and "xs \<noteq> []"
  shows "np_mean xs = Finite (sum_list (map real_of xs) / real (length xs))"
  using assms by (simp add: np_mean_def np_sum_finite)

lemma overall_mean_finite:
  assumes fin: "\<forall>c<n_chains A. \<forall>x\<in>set (steps_of A c p). isfinite x"
    and m: "0 < n_chains A" and n: "0 < n_steps A"
  shows "\<exists>om. overall_mean A p = Finite om"
proof -
  let ?all = "concat (map (\<lambda>c. steps_of A c p) [0..<n_chains A])"
  have all_fin: "\<forall>x\<in>set ?all. isfinite x"
    using fin by auto
  have len: "length ?all = n_chains A * n_steps A"
    by (simp add: length_concat_steps)
  have ne: "?all \<noteq> []"
  proof
    assume "?all = []"
    then have "length ?all = 0" by (simp only: list.size)
    with len m n show False by simp
  qed
  show ?thesis
    using np_mean_finite[OF all_fin ne] by (simp add: overall_mean_def)
qed


lemma steps_of_frozen:
  assumes "\<forall>s<n_steps A. entry A c s p = x"
  shows "steps_of A c p = replicate (n_steps A) x"
proof -
  have "map (\<lambda>s. entry A c s p) [0..<n_steps A] = map (\<lambda>s. x) [0..<n_steps A]"
    using assms by (intro map_cong) simp_all
  then show ?thesis by (simp add: steps_of_def map_replicate_const)
qed

lemma np_sum_replicate: "np_sum (replicate n (Finite r)) = Finite (real n * r)"
  by (induction n) (simp_all add: np_sum_Nil np_sum_Cons algebra_simps)

lemma np_mean_replicate: "0 < n \<Longrightarrow> np_mean (replicate n (Finite r)) = Finite r"
  by (simp add: np_mean_def np_sum_replicate)

lemma np_mean_constant:
  assumes "\<forall>x\<in>set xs. x = Finite r" and "xs \<noteq> []"
  shows "np_mean xs = Finite r"
proof -
  have "replicate (length xs) (Finite r) = xs"
    using assms(1) by (intro replicate_length_same) simp
  then show ?thesis
    using np_mean_replicate[of "length xs" r] assms(2) by simp
qed

lemma np_var_replicate: "2 \<le> n \<Longrightarrow> np_var_ddof1 (replicate n (Finite r)) = Finite 0"
  by (simp add: np_var_ddof1_def np_mean_replicate f_sub_def np_sum_replicate)

subsection \<open>Walkers that never move\<close>

text \<open>
  A chain whose value never changes has mean that value and variance zero. When the value
  is an integer and the sums stay below \<open>2\<^sup>5\<^sup>3\<close>, the doubles compute every one of these
  operations exactly, in whatever order they add.
\<close>

lemma frozen_values:
  assumes m: "2 \<le> n_chains A" and n: "2 \<le> n_steps A"
    and frozen: "\<forall>c<n_chains A. \<forall>s<n_steps A. entry A c s p = Finite (r c)"
  shows "W A p = Finite 0"
    and "B_over_n A p = Finite 0 \<longleftrightarrow> (\<forall>c<n_chains A. r c = r 0)"
    and "\<exists>b\<ge>0. B_over_n A p = Finite b"
proof -
  have n0: "0 < n_steps A" and m0: "0 < n_chains A" using m n by simp_all
  have steps: "steps_of A c p = replicate (n_steps A) (Finite (r c))" if "c < n_chains A" for c
    using frozen that by (intro steps_of_frozen) simp
  have "map (\<lambda>c. np_var_ddof1 (steps_of A c p)) [0..<n_chains A] =
        map (\<lambda>c. Finite 0) [0..<n_chains A]"
    using steps n by (intro map_cong) (simp_all add: np_var_replicate)
  then have "W A p = np_mean (replicate (n_chains A) (Finite 0))"
    by (simp add: W_def map_replicate_const)
  then show "W A p = Finite 0" using m0 by (simp add: np_mean_replicate)
  have cm: "chain_means A c p = Finite (r c)" if "c < n_chains A" for c
    using steps[OF that] n0 by (simp add: chain_means_def np_mean_replicate)
  have fin: "\<forall>c<n_chains A. \<forall>x\<in>set (steps_of A c p). isfinite x"
    using steps by simp
  obtain om where om: "overall_mean A p = Finite om"
    using overall_mean_finite[OF fin m0 n0] by auto
  let ?sq = "\<lambda>c. (r c - om)\<^sup>2"
  have eq: "map (\<lambda>c. f_square (f_sub (chain_means A c p) (overall_mean A p))) [0..<n_chains A] =
        map (\<lambda>c. Finite (?sq c)) [0..<n_chains A]"
    using cm by (intro map_cong) (simp_all add: om f_sub_def)
  have "B_over_n A p =
      f_div (Finite (sum_list (map ?sq [0..<n_chains A]))) (Finite (of_int (int (n_chains A) - 1)))"
    unfolding B_over_n_def eq np_sum_map_Finite ..
  moreover have pos: "(0::real) < of_int (int (n_chains A) - 1)" using m by simp
  ultimately have B: "B_over_n A p =
      Finite (sum_list (map ?sq [0..<n_chains A]) / of_int (int (n_chains A) - 1))"
    by simp
  have nonneg: "0 \<le> sum_list (map ?sq [0..<n_chains A])"
    by (intro sum_list_nonneg) auto
  then show "\<exists>b\<ge>0. B_over_n A p = Finite b" using B pos by auto
  have zero: "B_over_n A p = Finite 0 \<longleftrightarrow> (\<forall>c<n_chains A. r c = om)"
  proof -
    have "sum_list (map ?sq [0..<n_chains A]) = 0 \<longleftrightarrow> (\<forall>x\<in>set (map ?sq [0..<n_chains A]). x = 0)"
      by (intro sum_list_nonneg_eq_0_iff) auto
    then show ?thesis using B pos by auto
  qed
  show "B_over_n A p = Finite 0 \<longleftrightarrow> (\<forall>c<n_chains A. r c = r 0)"
  proof
    assume "B_over_n A p = Finite 0"
    then have all: "\<forall>c<n_chains A. r c = om" using zero by blast
    then have "r 0 = om" using m0 by blast
    then show "\<forall>c<n_chains A. r c = r 0" using all by blast
  next
    assume eq: "\<forall>c<n_chains A. r c = r 0"
    let ?all = "concat (map (\<lambda>c. steps_of A c p) [0..<n_chains A])"
    have "\<forall>x\<in>set ?all. x = Finite (r 0)"
    proof
      fix x assume "x \<in> set ?all"
      then obtain c where c: "c < n_chains A" and x: "x \<in> set (steps_of A c p)" by auto
      have "x = Finite (r c)" using x unfolding steps[OF c] by simp
      moreover have "r c = r 0" using eq c by blast
      ultimately show "x = Finite (r 0)" by (simp only:)
    qed
    moreover have "?all \<noteq> []"
    proof
      assume "?all = []"
      then have "length ?all = 0" by (simp only: list.size)
      then show False using m0 n0 by (simp add: length_concat_steps)
    qed
    ultimately have "overall_mean A p = Finite (r 0)"
      unfolding overall_mean_def by (rule np_mean_constant)
    then have "om = r 0" using om by simp
    then have "\<forall>c<n_chains A. r c = om" using eq by blast
    then show "B_over_n A p = Finite 0" using zero by blast
  qed
qed

subsection \<open>Evaluation on the example chains\<close>

lemma upt2: "[0..<2] = [0, 1]"
  by (simp add: upt_conv_Cons)

lemma upt3: "[0..<3] = [0, 1, 2]"
  by (simp add: upt_conv_Cons)

lemma upt4: "[0..<4] = [0, 1, 2, 3]"
  by (simp add: upt_conv_Cons)

lemma upt5: "[0..<5] = [0, 1, 2, 3, 4]"
  by (simp add: upt_conv_Cons)

lemmas gr_defs = gelman_rubin_def R_hat_def var_hat_plus_def W_def B_over_n_def overall_mean_def
  chain_means_def steps_of_def np_var_ddof1_def np_mean_def np_sum_def f_sub_def

lemmas burn_defs = chains_burned_def slice_steps_from_def slice_start_def burnin_def

lemma exact_roots: "sqrt (9 / 16) = 3 / 4" "sqrt (81 / 64) = 9 / 8" "sqrt (1089 / 256) = 33 / 16"
  by (rule real_sqrt_unique; simp add: power2_eq_square)+

lemma frozen_burned: "gelman_rubin (chains_burned frozen 4) = Inr [NaN]"
  by (simp add: gr_defs burn_defs frozen_def upt2 Let_def)

lemma parted_burned:
  "gelman_rubin (chains_burned parted 4) = Inr [Finite (3 / 4), Finite (9 / 8), Finite (33 / 16)]"
  by (simp add: gr_defs burn_defs parted_def upt2 upt3 Let_def power2_eq_square exact_roots)

lemma steady_burned:
  "gelman_rubin (chains_burned steady 4) =
     Inr [Finite (3 / 4), Finite (3 / 4), Finite (3 / 4), Finite (3 / 4), Finite (3 / 4)]"
  by (simp add: gr_defs burn_defs steady_def upt2 upt5 Let_def power2_eq_square exact_roots)

lemma le_not_greater: "f_le r t \<Longrightarrow> \<not> f_greater r t"
  by (cases r; cases t) (auto simp: f_le_def f_greater_def)

text \<open>
  Claim C4 says that a zero within-chain variance makes the diagnostic signal an error
  rather than hand a not-a-number on. It does not: for walkers frozen at one point the
  within-chain variance of the burned chain is zero, the diagnostic returns not-a-number
  as an ordinary value, and the check that follows passes it.
\<close>

theorem gelman_rubin_frozen_counterexample:
  "W (chains_burned frozen 4) 0 = Finite 0 \<and>
   gelman_rubin (chains_burned frozen 4) = Inr [NaN] \<and>
   diagnostics_cell frozen 4 [] = (Inr [NaN], [PrintRhat 1 NaN])"
  by (simp add: diagnostics_cell_def f_greater_def gr_defs burn_defs frozen_def upt2 Let_def)

text \<open>
  Claim C4, amended. The diagnostic signals no error, whatever the within-chain variance is:
  for every chain array with at least one step it returns one value for each parameter.
  In particular, with at least two chains and two steps and a parameter in which every
  chain stays at an integer of its own (the integers small enough for the sums to be
  exact), the within-chain variance is zero and the value returned for the parameter is
  not-a-number when all the chains stay at the same integer, and plus infinity otherwise.
\<close>

theorem gelman_rubin_signals_nothing:
  "(0 < n_steps A \<longrightarrow> (\<exists>rs. gelman_rubin A = Inr rs \<and> length rs = n_parameters A)) \<and>
   (2 \<le> n_chains A \<and> 2 \<le> n_steps A \<and> p < n_parameters A \<and>
    (\<forall>c<n_chains A. \<forall>s<n_steps A. entry A c s p = Finite (of_int (z c))) \<and>
    (\<forall>c<n_chains A. \<bar>z c\<bar> * int (n_chains A * n_steps A) < 2 ^ 53) \<longrightarrow>
      (\<exists>rs. gelman_rubin A = Inr rs \<and> W A p = Finite 0 \<and>
            rs ! p = (if \<forall>c<n_chains A. z c = z 0 then NaN else PosInf)))"
proof (intro conjI impI)
  assume "0 < n_steps A"
  then show "\<exists>rs. gelman_rubin A = Inr rs \<and> length rs = n_parameters A"
    by (simp add: gelman_rubin_def)
next
  assume h: "2 \<le> n_chains A \<and> 2 \<le> n_steps A \<and> p < n_parameters A \<and>
    (\<forall>c<n_chains A. \<forall>s<n_steps A. entry A c s p = Finite (of_int (z c))) \<and>
    (\<forall>c<n_chains A. \<bar>z c\<bar> * int (n_chains A * n_steps A) < 2 ^ 53)"
  from h have m: "2 \<le> n_chains A" and n: "2 \<le> n_steps A" and p: "p < n_parameters A"
    by blast+
  from h have frozen: "\<forall>c<n_chains A. \<forall>s<n_steps A. entry A c s p = Finite (real_of_int (z c))"
    by blast
  note v = frozen_values[OF m n frozen]
  obtain b where b: "B_over_n A p = Finite b" "0 \<le> b" using v(3) by blast
  have same: "(\<forall>c<n_chains A. real_of_int (z c) = real_of_int (z 0)) \<longleftrightarrow> (\<forall>c<n_chains A. z c = z 0)"
    by (simp only: of_int_eq_iff)
  have vh: "var_hat_plus A p = Finite b"
    by (simp add: var_hat_plus_def v(1) b(1))
  have R: "R_hat A p = (if \<forall>c<n_chains A. z c = z 0 then NaN else PosInf)"
  proof (cases "\<forall>c<n_chains A. z c = z 0")
    case True
    then have "B_over_n A p = Finite 0" using v(2) same by blast
    then have "b = 0" using b(1) by simp
    then have "R_hat A p = NaN" by (simp add: R_hat_def vh v(1))
    moreover have "(if \<forall>c<n_chains A. z c = z 0 then NaN else PosInf) = NaN"
      using True by (rule if_P)
    ultimately show ?thesis by (simp only:)
  next
    case False
    then have "B_over_n A p \<noteq> Finite 0" using v(2) same by blast
    then have "b \<noteq> 0" using b(1) by auto
    then have "0 < b" using b(2) by simp
    then have "R_hat A p = PosInf" by (simp add: R_hat_def vh v(1))
    moreover have "(if \<forall>c<n_chains A. z c = z 0 then NaN else PosInf) = PosInf"
      using False by (rule if_not_P)
    ultimately show ?thesis by (simp only:)
  qed
  have "gelman_rubin A = Inr (map (R_hat A) [0..<n_parameters A])"
    using n by (simp add: gelman_rubin_def)
  moreover have "map (R_hat A) [0..<n_parameters A] ! p = R_hat A p"
    using p by simp
  ultimately show "\<exists>rs. gelman_rubin A = Inr rs \<and> W A p = Finite 0 \<and>
            rs ! p = (if \<forall>c<n_chains A. z c = z 0 then NaN else PosInf)"
    using v(1) R by (intro exI[of _ "map (R_hat A) [0..<n_parameters A]"]) (simp only: simp_thms)
qed

theorem gelman_rubin_signals_nothing_witness:
  "gelman_rubin frozen = Inr [NaN] \<and> W frozen 0 = Finite 0 \<and>
   gelman_rubin stuck = Inr [PosInf] \<and> W stuck 0 = Finite 0"
proof -
  have hf: "2 \<le> n_chains frozen \<and> 2 \<le> n_steps frozen \<and> 0 < n_parameters frozen \<and>
      (\<forall>c<n_chains frozen. \<forall>s<n_steps frozen. entry frozen c s 0 = Finite (of_int ((\<lambda>c. 1) c))) \<and>
      (\<forall>c<n_chains frozen. \<bar>(\<lambda>c. 1) c\<bar> * int (n_chains frozen * n_steps frozen) < 2 ^ 53)"
    by (simp add: frozen_def)
  have hs: "2 \<le> n_chains stuck \<and> 2 \<le> n_steps stuck \<and> 0 < n_parameters stuck \<and>
      (\<forall>c<n_chains stuck. \<forall>s<n_steps stuck. entry stuck c s 0 = Finite (of_int (int c))) \<and>
      (\<forall>c<n_chains stuck. \<bar>int c\<bar> * int (n_chains stuck * n_steps stuck) < 2 ^ 53)"
    by (simp add: stuck_def)
  have differ: "\<not> (\<forall>c<n_chains stuck. int c = int 0)"
    by (auto simp: stuck_def intro!: exI[of _ 1])
  have steps: "0 < n_steps frozen" "0 < n_steps stuck"
    by (simp_all add: frozen_def stuck_def)
  obtain rf where rf: "gelman_rubin frozen = Inr rf" "length rf = n_parameters frozen"
    using gelman_rubin_signals_nothing[of frozen 0 "\<lambda>c. 1"] steps(1) by blast
  obtain rf' where rf': "gelman_rubin frozen = Inr rf'" "W frozen 0 = Finite 0" "rf' ! 0 = NaN"
    using gelman_rubin_signals_nothing[of frozen 0 "\<lambda>c. 1"] hf by auto
  obtain rs where rs: "gelman_rubin stuck = Inr rs" "length rs = n_parameters stuck"
    using gelman_rubin_signals_nothing[of stuck 0 int] steps(2) by blast
  have "\<exists>rs. gelman_rubin stuck = Inr rs \<and> W stuck 0 = Finite 0 \<and>
      rs ! 0 = (if \<forall>c<n_chains stuck. int c = int 0 then NaN else PosInf)"
    using gelman_rubin_signals_nothing[of stuck 0 int] hs by blast
  then obtain rs' where rs': "gelman_rubin stuck = Inr rs'" "W stuck 0 = Finite 0"
    and "rs' ! 0 = (if \<forall>c<n_chains stuck. int c = int 0 then NaN else PosInf)"
    by blast
  then have rs'0: "rs' ! 0 = PosInf" using if_not_P[OF differ] by (simp only:)
  have "length rf = 1" "length rs = 1"
    using rf(2) rs(2) by (simp_all add: frozen_def stuck_def)
  then obtain x y where xy: "rf = [x]" "rs = [y]"
    by (auto simp: length_Suc_conv)
  have "rf' = [x]" "rs' = [y]" using rf(1) rf'(1) rs(1) rs'(1) xy by simp_all
  then have "x = NaN" "y = PosInf" using rf'(3) rs'0 by simp_all
  then have "rf = [NaN]" "rs = [PosInf]" using xy by simp_all
  then have "gelman_rubin frozen = Inr [NaN]" "gelman_rubin stuck = Inr [PosInf]"
    using rf(1) rs(1) by simp_all
  then show ?thesis using rf'(2) rs'(2) by simp
qed

section \<open>Properties of the burn-in and of the convergence check\<close>

lemma floor_half: "\<lfloor>of_int n * burn_in_fraction\<rfloor> = n div 2"
proof -
  have "\<lfloor>(of_int n :: real) / of_int 2\<rfloor> = n div 2"
    by (rule floor_divide_of_int_eq)
  then show ?thesis by (simp add: burn_in_fraction_def)
qed

text \<open>
  Claim C7. For a positive \<open>nsteps\<close> and a sampler chain of that many steps, the trimmed
  chain drops \<open>floor (nsteps * burn_in_fraction)\<close> steps, the fraction being one half:
  it has the remaining number of steps, the same walkers and parameters, and its step
  \<open>s\<close> is step \<open>floor (nsteps * burn_in_fraction) + s\<close> of the sampler chain.
\<close>

theorem burn_in_trim:
  assumes "0 < nsteps" and "n_steps A = nat nsteps"
  shows "n_steps (chains_burned A nsteps) = nat nsteps - nat \<lfloor>of_int nsteps * burn_in_fraction\<rfloor> \<and>
         n_chains (chains_burned A nsteps) = n_chains A \<and>
         n_parameters (chains_burned A nsteps) = n_parameters A \<and>
         (\<forall>c s p. entry (chains_burned A nsteps) c s p =
                    entry A c (nat \<lfloor>of_int nsteps * burn_in_fraction\<rfloor> + s) p)"
proof -
  have "slice_start (nat nsteps) (nsteps div 2) = nat (nsteps div 2)"
    using assms(1) by (simp add: slice_start_def min_def)
  then show ?thesis
    using assms(2) by (simp add: floor_half chains_burned_def slice_steps_from_def burnin_def Let_def)
qed

theorem burn_in_trim_witness:
  "n_steps (chains_burned drifting 4) = 2 \<and>
   entry (chains_burned drifting 4) 1 0 0 = Finite 3"
proof -
  have h: "n_steps drifting = nat 4" by (simp add: drifting_def)
  have f: "nat \<lfloor>of_int 4 * burn_in_fraction\<rfloor> = 2" by (simp add: burn_in_fraction_def)
  show ?thesis
    using burn_in_trim[of 4 drifting, OF _ h] unfolding f by (simp add: drifting_def)
qed

lemma rhat_check_passes:
  "\<not> list_ex (\<lambda>r. f_greater r (Finite double_1_1)) rs \<Longrightarrow>
   rhat_check i rs out = (Inr (), out @ map2 PrintRhat [Suc i..<Suc i + length rs] rs)"
proof (induction rs arbitrary: i out)
  case Nil
  then show ?case by simp
next
  case (Cons r rs)
  then show ?case by (simp del: upt_Suc add: upt_conv_Cons)
qed

lemma rhat_check_stops:
  "list_ex (\<lambda>r. f_greater r (Finite double_1_1)) rs \<Longrightarrow>
   k = length (takeWhile (\<lambda>r. \<not> f_greater r (Finite double_1_1)) rs) \<Longrightarrow>
   rhat_check i rs out =
     (Inl AssertionError,
      out @ map2 PrintRhat [Suc i..<Suc i + Suc k] (take (Suc k) rs)
          @ [PrintWarning (Suc i + k) (rs ! k), DisplayStopping])"
proof (induction rs arbitrary: i out k)
  case Nil
  then show ?case by simp
next
  case (Cons r rs)
  show ?case
  proof (cases "f_greater r (Finite double_1_1)")
    case True
    then show ?thesis using Cons.prems by simp
  next
    case False
    then have ex: "list_ex (\<lambda>r. f_greater r (Finite double_1_1)) rs"
      using Cons.prems by simp
    obtain k' where k': "k' = length (takeWhile (\<lambda>r. \<not> f_greater r (Finite double_1_1)) rs)"
      by simp
    have k: "k = Suc k'" using False Cons.prems(2) k' by simp
    show ?thesis
      using Cons.IH[OF ex k', of "Suc i" "out @ [PrintRhat (Suc i) r]"] False
      by (simp del: upt_Suc add: k upt_conv_Cons)
  qed
qed

text \<open>A run of the cells on the example chain that passes the check.\<close>

lemma permutation4: "permutation (\<lambda>i. 0) 4 = [1, 2, 3, 0]"
  by (simp add: permutation_def eval_nat_numeral upt_conv_Cons Let_def)

lemma steady_later:
  "later_cells (notebook_globals sum_model) (\<lambda>i. 0) (chains_burned steady 4) 2 [] =
     (Inr (Finite 25, Finite (43 / 4), Finite (157 / 4)),
      [[Finite 8, Finite 8, Finite 8, Finite 8, Finite 8],
       [Finite 2, Finite 2, Finite 2, Finite 2, Finite 2]])"
proof -
  define rows where "rows =
      [[Finite 0, Finite 0, Finite 0, Finite 0, Finite 0],
       [Finite 8, Finite 8, Finite 8, Finite 8, Finite 8],
       [Finite 2, Finite 2, Finite 2, Finite 2, Finite 2],
       [Finite 10, Finite 10, Finite 10, Finite 10, Finite (10::real)]]"
  have reshape: "reshape_rows5 (chains_burned steady 4) = Inr rows"
    by (simp add: rows_def reshape_rows5_def flat_entries_def burn_defs steady_def
        upt2 upt4 upt5 Let_def)
  have len: "length rows = 4" by (simp add: rows_def)
  have sel: "selected_indices (\<lambda>i. 0) rows 2 = Inr [1, 2]"
    unfolding selected_indices_def random_choice_def len permutation4 by simp
  have "propagation_cell (notebook_globals sum_model) (\<lambda>i. 0) rows 2 [] =
     (Inr (Finite 25, Finite (43 / 4), Finite (157 / 4)),
      [[Finite 8, Finite 8, Finite 8, Finite 8, Finite 8],
       [Finite 2, Finite 2, Finite 2, Finite 2, Finite 2]])"
    unfolding propagation_cell_def sel
    by (simp add: rows_def take_rows_def notebook_globals_def sum_model_def
        np_sum_def summary_statistics_def np_percentile_def np_mean_def sort_f_def f_le_def
        lerp_def f_sub_def Let_def)
  then show ?thesis
    unfolding later_cells_def reshape by simp
qed

text \<open>
  Claim C5 says that a run with a value above 1.1 is reported to the caller, with the
  offending parameters and their values, rather than crashing. It is not so: with two
  offending parameters the check ends in an \<open>AssertionError\<close> after the first, whose
  line and warning are all that is written.
\<close>

theorem rhat_check_counterexample:
  "rhat_check 0 [Finite (9 / 8), Finite (33 / 16)] [] =
     (Inl AssertionError,
      [PrintRhat 1 (Finite (9 / 8)), PrintWarning 1 (Finite (9 / 8)), DisplayStopping]) \<and>
   offending [Finite (9 / 8), Finite (33 / 16)] = [(1, Finite (9 / 8)), (2, Finite (33 / 16))]"
  by (simp add: f_greater_def offending_def upt_conv_Cons double_1_1_def)

text \<open>
  Claim C5, amended. Whatever values the diagnostic returned for the burned chain: when
  some value is greater than the double 1.1, the check writes the line of every parameter
  up to the first such one, the warning and the notice for that parameter alone, and
  raises \<open>AssertionError\<close>; the run of the cells ends there, so that no later cell runs and
  the surrogate is not called. When every value is at most 1.1, the check writes the line
  of every parameter and the run goes on with the later cells.
\<close>

theorem nonconvergence_stops_run:
  "(list_ex (\<lambda>r. f_greater r (Finite double_1_1)) rs \<longrightarrow>
      (let k = length (takeWhile (\<lambda>r. \<not> f_greater r (Finite double_1_1)) rs) in
       run_from_check g draw burned rs n_samples out calls =
         (Inl AssertionError,
          out @ map2 PrintRhat [1..<Suc (Suc k)] (take (Suc k) rs)
              @ [PrintWarning (Suc k) (rs ! k), DisplayStopping],
          calls))) \<and>
   (list_all (\<lambda>r. f_le r (Finite double_1_1)) rs \<longrightarrow>
      run_from_check g draw burned rs n_samples out calls =
        (fst (later_cells g draw burned n_samples calls),
         out @ map2 PrintRhat [1..<Suc (length rs)] rs,
         snd (later_cells g draw burned n_samples calls)))"
proof (intro conjI impI)
  assume "list_ex (\<lambda>r. f_greater r (Finite double_1_1)) rs"
  then show "let k = length (takeWhile (\<lambda>r. \<not> f_greater r (Finite double_1_1)) rs) in
       run_from_check g draw burned rs n_samples out calls =
         (Inl AssertionError,
          out @ map2 PrintRhat [1..<Suc (Suc k)] (take (Suc k) rs)
              @ [PrintWarning (Suc k) (rs ! k), DisplayStopping],
          calls)"
    using rhat_check_stops[of rs _ 0 out] by (simp add: run_from_check_def Let_def)
next
  assume "list_all (\<lambda>r. f_le r (Finite double_1_1)) rs"
  then have "\<not> list_ex (\<lambda>r. f_greater r (Finite double_1_1)) rs"
    using le_not_greater by (auto simp: list_all_iff list_ex_iff)
  then show "run_from_check g draw burned rs n_samples out calls =
        (fst (later_cells g draw burned n_samples calls),
         out @ map2 PrintRhat [1..<Suc (length rs)] rs,
         snd (later_cells g draw burned n_samples calls))"
    using rhat_check_passes[of rs 0 out]
    by (simp add: run_from_check_def split: prod.splits)
qed

theorem nonconvergence_stops_run_witness:
  "run_cells (notebook_globals sum_model) (\<lambda>i. 0) parted 4 2 [] [] =
     (Inl AssertionError,
      [PrintRhat 1 (Finite (3 / 4)), PrintRhat 2 (Finite (9 / 8)),
       PrintWarning 2 (Finite (9 / 8)), DisplayStopping],
      []) \<and>
   run_cells (notebook_globals sum_model) (\<lambda>i. 0) steady 4 2 [] [] =
     (Inr (Finite 25, Finite (43 / 4), Finite (157 / 4)),
      [PrintRhat 1 (Finite (3 / 4)), PrintRhat 2 (Finite (3 / 4)), PrintRhat 3 (Finite (3 / 4)),
       PrintRhat 4 (Finite (3 / 4)), PrintRhat 5 (Finite (3 / 4))],
      [[Finite 8, Finite 8, Finite 8, Finite 8, Finite 8],
       [Finite 2, Finite 2, Finite 2, Finite 2, Finite 2]])"
proof -
  let ?g = "notebook_globals sum_model"
  let ?p = "[Finite (3 / 4), Finite (9 / 8), Finite (33 / 16)]"
  let ?s = "[Finite (3 / 4), Finite (3 / 4), Finite (3 / 4), Finite (3 / 4), Finite (3 / 4)]"
  have above: "list_ex (\<lambda>r. f_greater r (Finite double_1_1)) ?p"
    by (simp add: f_greater_def double_1_1_def)
  have first: "length (takeWhile (\<lambda>r. \<not> f_greater r (Finite double_1_1)) ?p) = 1"
    by (simp add: f_greater_def double_1_1_def)
  have below: "list_all (\<lambda>r. f_le r (Finite double_1_1)) ?s"
    by (simp add: f_le_def double_1_1_def)
  note stop = nonconvergence_stops_run[of ?p ?g "\<lambda>i. 0" "chains_burned parted 4" 2 "[]" "[]",
      THEN conjunct1, rule_format, OF above, unfolded Let_def first]
  note pass = nonconvergence_stops_run[of ?s ?g "\<lambda>i. 0" "chains_burned steady 4" 2 "[]" "[]",
      THEN conjunct2, rule_format, OF below, unfolded steady_later]
  have "run_from_check ?g (\<lambda>i. 0) (chains_burned parted 4) ?p 2 [] [] =
      (Inl AssertionError,
       [PrintRhat 1 (Finite (3 / 4)), PrintRhat 2 (Finite (9 / 8)),
        PrintWarning 2 (Finite (9 / 8)), DisplayStopping],
       [])"
    using stop by (simp add: upt_conv_Cons)
  moreover have "run_from_check ?g (\<lambda>i. 0) (chains_burned steady 4) ?s 2 [] [] =
      (Inr (Finite 25, Finite (43 / 4), Finite (157 / 4)),
       [PrintRhat 1 (Finite (3 / 4)), PrintRhat 2 (Finite (3 / 4)), PrintRhat 3 (Finite (3 / 4)),
        PrintRhat 4 (Finite (3 / 4)), PrintRhat 5 (Finite (3 / 4))],
       [[Finite 8, Finite 8, Finite 8, Finite 8, Finite 8],
        [Finite 2, Finite 2, Finite 2, Finite 2, Finite 2]])"
    using pass by (simp add: upt_conv_Cons)
  ultimately show ?thesis
    by (simp add: run_cells_def parted_burned steady_burned)
qed

section \<open>Properties of the propagation\<close>

subsection \<open>The shuffle, the loop and the sorting\<close>

lemma shuffle_raw_inv:
  "i < length x \<Longrightarrow>
   length (shuffle_raw draw i x) = length x \<and>
   set (shuffle_raw draw i x) = set x \<and>
   distinct (shuffle_raw draw i x) = distinct x"
proof (induction i arbitrary: x)
  case 0
  then show ?case by simp
next
  case (Suc i)
  let ?j = "draw (Suc i) mod (Suc i + 1)"
  let ?y = "x[Suc i := x ! ?j, ?j := x ! Suc i]"
  have "?j < Suc i + 1" by (rule mod_less_divisor) simp
  then have j: "?j < length x" using Suc.prems by linarith
  have "i < length ?y" using Suc.prems by simp
  from Suc.IH[OF this] show ?case
    using Suc.prems j by (simp add: Let_def)
qed

lemma permutation_props:
  "length (permutation draw n) = n \<and> set (permutation draw n) = {0..<n} \<and>
   distinct (permutation draw n)"
proof (cases n)
  case 0
  then show ?thesis by (simp add: permutation_def)
next
  case (Suc m)
  then have "n - 1 < length [0..<n]" by simp
  from shuffle_raw_inv[OF this, of draw] show ?thesis
    by (simp add: permutation_def)
qed

lemma predict_loop_total:
  "\<forall>s\<in>set sel. \<exists>v. gpr_model g s = Inr v \<Longrightarrow>
   \<exists>vals. predict_loop g sel acc calls = (Inr (acc @ vals), calls @ sel) \<and>
          length vals = length sel \<and>
          (\<forall>j<length sel. gpr_model g (sel ! j) = Inr (vals ! j))"
proof (induction sel arbitrary: acc calls)
  case Nil
  then show ?case by simp
next
  case (Cons s sel)
  then obtain v where v: "gpr_model g s = Inr v" by auto
  obtain vals where vals:
    "predict_loop g sel (acc @ [v]) (calls @ [s]) = (Inr ((acc @ [v]) @ vals), (calls @ [s]) @ sel)"
    "length vals = length sel"
    "\<forall>j<length sel. gpr_model g (sel ! j) = Inr (vals ! j)"
    using Cons.IH[of "acc @ [v]" "calls @ [s]"] Cons.prems by auto
  have "\<forall>j<length (s # sel). gpr_model g ((s # sel) ! j) = Inr ((v # vals) ! j)"
    using v vals(3) by (auto simp: nth_Cons split: nat.splits)
  then show ?case
    using v vals(1,2) by (intro exI[of _ "v # vals"]) simp
qed


lemma f_le_total: "x \<noteq> NaN \<Longrightarrow> y \<noteq> NaN \<Longrightarrow> f_le x y \<or> f_le y x"
  by (cases x; cases y) (auto simp: f_le_def)

lemma f_le_trans: "f_le x y \<Longrightarrow> f_le y z \<Longrightarrow> f_le x z"
  by (cases x; cases y; cases z) (auto simp: f_le_def)

lemma mset_insort_f: "mset (insort_f x ys) = add_mset x (mset ys)"
  by (induction ys) simp_all

lemma set_insort_f: "set (insort_f x ys) = insert x (set ys)"
  by (induction ys) auto

lemma sorted_insort_f:
  "sorted_wrt f_le ys \<Longrightarrow> x \<noteq> NaN \<Longrightarrow> NaN \<notin> set ys \<Longrightarrow> sorted_wrt f_le (insort_f x ys)"
proof (induction ys)
  case Nil
  then show ?case by simp
next
  case (Cons y ys)
  show ?case
  proof (cases "f_le x y")
    case True
    then have "\<forall>z\<in>set ys. f_le x z"
      using Cons.prems(1) f_le_trans by auto
    then show ?thesis using True Cons.prems(1) by simp
  next
    case False
    then have "f_le y x" using f_le_total[of x y] Cons.prems(2,3) by auto
    then show ?thesis
      using False Cons by (auto simp: set_insort_f)
  qed
qed

lemma mset_sort_f: "mset (sort_f xs) = mset xs"
  by (induction xs) (simp_all add: sort_f_def mset_insort_f)

lemma sorted_sort_f: "NaN \<notin> set xs \<Longrightarrow> sorted_wrt f_le (sort_f xs)"
proof (induction xs)
  case Nil
  then show ?case by (simp add: sort_f_def)
next
  case (Cons x xs)
  have step: "sort_f (x # xs) = insort_f x (sort_f xs)" by (simp add: sort_f_def)
  have "set (sort_f xs) = set xs"
    using mset_sort_f[of xs] by (rule mset_eq_setD)
  then have "NaN \<notin> set (sort_f xs)" using Cons.prems by simp
  moreover have "sorted_wrt f_le (sort_f xs)" using Cons by simp
  moreover have "x \<noteq> NaN" using Cons.prems by auto
  ultimately show ?case unfolding step by (intro sorted_insort_f)
qed

lemma np_percentile_sorted:
  assumes "a \<noteq> []" and "NaN \<notin> set a" and "0 \<le> q" and "q \<le> 100"
  shows "np_percentile a q =
    Inr (let h = (real (length a) - 1) * (q / 100); k = nat \<lfloor>h\<rfloor> in
         if real (length a) - 1 \<le> h
         then lerp (last (sort_f a)) (last (sort_f a)) (h + 1)
         else lerp (sort_f a ! k) (sort_f a ! (k + 1)) (h - real k))"
  using assms by (simp add: np_percentile_def list_ex_iff Let_def)

lemma np_percentile_nan:
  assumes "NaN \<in> set a" and "0 \<le> q" and "q \<le> 100"
  shows "np_percentile a q = Inr NaN"
  using assms by (auto simp: np_percentile_def list_ex_iff)

subsection \<open>The claim\<close>

text \<open>
  Claim C9. Whatever the generator draws, and for a surrogate that returns on every sample
  of the pool: asking for more samples than the pool holds raises \<open>ValueError\<close> before any
  call of the surrogate; asking for a positive number within the pool size selects that
  many pairwise distinct positions of the pool and calls the surrogate once on the sample
  at each of them, in order. The cell then returns the mean of the values the surrogate
  returned, and their 2.5 and 97.5 percentiles: with the values in ascending order, the
  interpolation between the two neighbours of the position \<open>(n_samples - 1) * q / 100\<close>
  (not-a-number when one of the values is).
\<close>

theorem propagation_sampling:
  assumes "\<forall>s\<in>set samples. \<exists>v. gpr_model g s = Inr v"
  shows "(length samples < n_samples \<longrightarrow>
            propagation_cell g draw samples n_samples calls = (Inl ValueError, calls)) \<and>
         (0 < n_samples \<and> n_samples \<le> length samples \<longrightarrow>
            (\<exists>indices nrmse_values.
               selected_indices draw samples n_samples = Inr indices \<and>
               distinct indices \<and> length indices = n_samples \<and>
               (\<forall>i\<in>set indices. i < length samples) \<and>
               snd (propagation_cell g draw samples n_samples calls) =
                 calls @ map (\<lambda>i. samples ! i) indices \<and>
               length nrmse_values = n_samples \<and>
               (\<forall>j<n_samples. gpr_model g (samples ! (indices ! j)) = Inr (nrmse_values ! j)) \<and>
               (NaN \<in> set nrmse_values \<longrightarrow>
                  fst (propagation_cell g draw samples n_samples calls) =
                    Inr (np_mean nrmse_values, NaN, NaN)) \<and>
               (NaN \<notin> set nrmse_values \<longrightarrow>
                  (\<exists>arr. mset arr = mset nrmse_values \<and> sorted_wrt f_le arr \<and>
                     (let pct = (\<lambda>q. let h = (real n_samples - 1) * (q / 100); k = nat \<lfloor>h\<rfloor> in
                                     if real n_samples - 1 \<le> h
                                     then lerp (last arr) (last arr) (h + 1)
                                     else lerp (arr ! k) (arr ! (k + 1)) (h - real k))
                      in fst (propagation_cell g draw samples n_samples calls) =
                           Inr (np_mean nrmse_values, pct (25 / 10), pct (975 / 10)))))))"
proof (intro conjI impI)
  assume "length samples < n_samples"
  then show "propagation_cell g draw samples n_samples calls = (Inl ValueError, calls)"
    by (simp add: propagation_cell_def selected_indices_def random_choice_def)
next
  assume k: "0 < n_samples \<and> n_samples \<le> length samples"
  let ?perm = "permutation draw (length samples)"
  let ?indices = "take n_samples ?perm"
  let ?sel = "map (\<lambda>i. samples ! i) ?indices"
  have perm: "length ?perm = length samples" "set ?perm = {0..<length samples}" "distinct ?perm"
    using permutation_props[of draw "length samples"] by simp_all
  have sel: "selected_indices draw samples n_samples = Inr ?indices"
    using k by (simp add: selected_indices_def random_choice_def)
  have dist: "distinct ?indices" using perm(3) by simp
  have len: "length ?indices = n_samples" using k perm(1) by simp
  have bound: "\<forall>i\<in>set ?indices. i < length samples"
    using perm(2) set_take_subset[of n_samples ?perm] by auto
  then have rows: "take_rows samples ?indices = Inr ?sel"
    by (simp add: take_rows_def list_all_iff)
  have "\<forall>s\<in>set ?sel. \<exists>v. gpr_model g s = Inr v"
    using bound assms by auto
  then obtain vals where vals:
    "predict_loop g ?sel [] calls = (Inr ([] @ vals), calls @ ?sel)"
    "length vals = length ?sel"
    "\<forall>j<length ?sel. gpr_model g (?sel ! j) = Inr (vals ! j)"
    using predict_loop_total[of ?sel g "[]" calls] by blast
  have vlen: "length vals = n_samples" using vals(2) len by simp
  then have ne: "vals \<noteq> []" using k by auto
  have each: "\<forall>j<n_samples. gpr_model g (samples ! (?indices ! j)) = Inr (vals ! j)"
    using vals(3) len by simp
  have cell: "propagation_cell g draw samples n_samples calls =
      (summary_statistics vals, calls @ ?sel)"
    using vals(1) by (simp add: propagation_cell_def sel rows)
  have nan: "NaN \<in> set vals \<longrightarrow>
      fst (propagation_cell g draw samples n_samples calls) = Inr (np_mean vals, NaN, NaN)"
  proof
    assume "NaN \<in> set vals"
    then have "np_percentile vals (25 / 10) = Inr NaN" "np_percentile vals (975 / 10) = Inr NaN"
      by (simp_all add: np_percentile_nan)
    then show "fst (propagation_cell g draw samples n_samples calls) = Inr (np_mean vals, NaN, NaN)"
      by (simp add: cell summary_statistics_def)
  qed
  have fin: "NaN \<notin> set vals \<longrightarrow>
      (\<exists>arr. mset arr = mset vals \<and> sorted_wrt f_le arr \<and>
         (let pct = (\<lambda>q. let h = (real n_samples - 1) * (q / 100); k = nat \<lfloor>h\<rfloor> in
                         if real n_samples - 1 \<le> h
                         then lerp (last arr) (last arr) (h + 1)
                         else lerp (arr ! k) (arr ! (k + 1)) (h - real k))
          in fst (propagation_cell g draw samples n_samples calls) =
               Inr (np_mean vals, pct (25 / 10), pct (975 / 10))))"
  proof
    assume nn: "NaN \<notin> set vals"
    define pct where "pct = (\<lambda>q. let h = (real n_samples - 1) * (q / 100); k = nat \<lfloor>h\<rfloor> in
                         if real n_samples - 1 \<le> h
                         then lerp (last (sort_f vals)) (last (sort_f vals)) (h + 1)
                         else lerp (sort_f vals ! k) (sort_f vals ! (k + 1)) (h - real k))"
    have p: "np_percentile vals q = Inr (pct q)" if "0 \<le> q" "q \<le> 100" for q
      unfolding pct_def using np_percentile_sorted[OF ne nn that] by (simp only: vlen)
    have lo: "np_percentile vals (25 / 10) = Inr (pct (25 / 10))" by (rule p) simp_all
    have up: "np_percentile vals (975 / 10) = Inr (pct (975 / 10))" by (rule p) simp_all
    have "summary_statistics vals = Inr (np_mean vals, pct (25 / 10), pct (975 / 10))"
      unfolding summary_statistics_def Let_def lo up by simp
    then have "fst (propagation_cell g draw samples n_samples calls) =
        Inr (np_mean vals, pct (25 / 10), pct (975 / 10))"
      by (simp only: cell fst_conv)
    then have "let pct = (\<lambda>q. let h = (real n_samples - 1) * (q / 100); k = nat \<lfloor>h\<rfloor> in
                         if real n_samples - 1 \<le> h
                         then lerp (last (sort_f vals)) (last (sort_f vals)) (h + 1)
                         else lerp (sort_f vals ! k) (sort_f vals ! (k + 1)) (h - real k))
          in fst (propagation_cell g draw samples n_samples calls) =
               Inr (np_mean vals, pct (25 / 10), pct (975 / 10))"
      unfolding pct_def Let_def .
    then show "\<exists>arr. mset arr = mset vals \<and> sorted_wrt f_le arr \<and>
         (let pct = (\<lambda>q. let h = (real n_samples - 1) * (q / 100); k = nat \<lfloor>h\<rfloor> in
                         if real n_samples - 1 \<le> h
                         then lerp (last arr) (last arr) (h + 1)
                         else lerp (arr ! k) (arr ! (k + 1)) (h - real k))
          in fst (propagation_cell g draw samples n_samples calls) =
               Inr (np_mean vals, pct (25 / 10), pct (975 / 10)))"
      using mset_sort_f[of vals] sorted_sort_f[OF nn]
      by (intro exI[of _ "sort_f vals"] conjI)
  qed
  have calls: "snd (propagation_cell g draw samples n_samples calls) = calls @ ?sel"
    by (simp add: cell)
  show "\<exists>indices nrmse_values.
               selected_indices draw samples n_samples = Inr indices \<and>
               distinct indices \<and> length indices = n_samples \<and>
               (\<forall>i\<in>set indices. i < length samples) \<and>
               snd (propagation_cell g draw samples n_samples calls) =
                 calls @ map (\<lambda>i. samples ! i) indices \<and>
               length nrmse_values = n_samples \<and>
               (\<forall>j<n_samples. gpr_model g (samples ! (indices ! j)) = Inr (nrmse_values ! j)) \<and>
               (NaN \<in> set nrmse_values \<longrightarrow>
                  fst (propagation_cell g draw samples n_samples calls) =
                    Inr (np_mean nrmse_values, NaN, NaN)) \<and>
               (NaN \<notin> set nrmse_values \<longrightarrow>
                  (\<exists>arr. mset arr = mset nrmse_values \<and> sorted_wrt f_le arr \<and>
                     (let pct = (\<lambda>q. let h = (real n_samples - 1) * (q / 100); k = nat \<lfloor>h\<rfloor> in
                                     if real n_samples - 1 \<le> h
                                     then lerp (last arr) (last arr) (h + 1)
                                     else lerp (arr ! k) (arr ! (k + 1)) (h - real k))
                      in fst (propagation_cell g draw samples n_samples calls) =
                           Inr (np_mean nrmse_values, pct (25 / 10), pct (975 / 10)))))"
    using sel dist len bound calls vlen each nan fin
    by (intro exI[of _ ?indices] exI[of _ vals]) blast
qed

lemma mset_pair:
  assumes "mset arr = mset [a, b]"
  shows "arr = [a, b] \<or> arr = [b, a]"
proof -
  have "length arr = 2" using mset_eq_length[OF assms] by simp
  then obtain x y where arr: "arr = [x, y]"
    by (metis (no_types, opaque_lifting) One_nat_def Suc_1 length_0_conv length_Suc_conv)
  show ?thesis using assms unfolding arr by (auto simp: add_eq_conv_ex)
qed

theorem propagation_sampling_witness:
  "propagation_cell (notebook_globals sum_model) (\<lambda>i. 0) pool4 5 [] = (Inl ValueError, []) \<and>
   selected_indices (\<lambda>i. 0) pool4 2 = Inr [1, 2] \<and>
   propagation_cell (notebook_globals sum_model) (\<lambda>i. 0) pool4 2 [] =
     (Inr (Finite 5, Finite (43 / 20), Finite (157 / 20)), [[Finite 8], [Finite 2]])"
proof -
  let ?g = "notebook_globals sum_model"
  have t: "\<forall>s\<in>set pool4. \<exists>v. gpr_model ?g s = Inr v"
    by (simp add: notebook_globals_def sum_model_def)
  have big: "length pool4 < 5" and small: "0 < (2::nat) \<and> 2 \<le> length pool4"
    by (simp_all add: pool4_def)
  have a: "propagation_cell ?g (\<lambda>i. 0) pool4 5 [] = (Inl ValueError, [])"
    using propagation_sampling[OF t, of 5 "\<lambda>i. 0" "[]"] big by blast
  have len4: "length pool4 = 4" by (simp add: pool4_def)
  have sel: "selected_indices (\<lambda>i. 0) pool4 2 = Inr [1, 2]"
    unfolding selected_indices_def random_choice_def len4 permutation4 by simp
  obtain indices vals where w:
    "selected_indices (\<lambda>i. 0) pool4 2 = Inr indices"
    "snd (propagation_cell ?g (\<lambda>i. 0) pool4 2 []) = [] @ map (\<lambda>i. pool4 ! i) indices"
    "length vals = 2"
    "\<forall>j<2. gpr_model ?g (pool4 ! (indices ! j)) = Inr (vals ! j)"
    "NaN \<notin> set vals \<longrightarrow>
       (\<exists>arr. mset arr = mset vals \<and> sorted_wrt f_le arr \<and>
          (let pct = (\<lambda>q. let h = (real 2 - 1) * (q / 100); k = nat \<lfloor>h\<rfloor> in
                          if real 2 - 1 \<le> h
                          then lerp (last arr) (last arr) (h + 1)
                          else lerp (arr ! k) (arr ! (k + 1)) (h - real k))
           in fst (propagation_cell ?g (\<lambda>i. 0) pool4 2 []) =
                Inr (np_mean vals, pct (25 / 10), pct (975 / 10))))"
    using propagation_sampling[OF t, of 2 "\<lambda>i. 0" "[]"] small by blast
  have ind: "indices = [1, 2]" using w(1) sel by simp
  have "gpr_model ?g (pool4 ! (indices ! 0)) = Inr (vals ! 0)"
    "gpr_model ?g (pool4 ! (indices ! 1)) = Inr (vals ! 1)"
    using w(4) by simp_all
  then have "vals ! 0 = Finite 8" "vals ! 1 = Finite 2"
    by (simp_all add: ind pool4_def notebook_globals_def sum_model_def np_sum_def)
  then have vals: "vals = [Finite 8, Finite 2]"
    using w(3) by (auto simp: list_eq_iff_nth_eq less_Suc_eq numeral_2_eq_2)
  obtain arr where arr: "mset arr = mset [Finite 8, Finite 2]" "sorted_wrt f_le arr"
    and res: "let pct = (\<lambda>q. let h = (real 2 - 1) * (q / 100); k = nat \<lfloor>h\<rfloor> in
                          if real 2 - 1 \<le> h
                          then lerp (last arr) (last arr) (h + 1)
                          else lerp (arr ! k) (arr ! (k + 1)) (h - real k))
           in fst (propagation_cell ?g (\<lambda>i. 0) pool4 2 []) =
                Inr (np_mean vals, pct (25 / 10), pct (975 / 10))"
    using w(5) unfolding vals by auto
  have "arr = [Finite 2, Finite 8]"
    using mset_pair[OF arr(1)] arr(2) by (auto simp: f_le_def)
  then have "fst (propagation_cell ?g (\<lambda>i. 0) pool4 2 []) =
      Inr (Finite 5, Finite (43 / 20), Finite (157 / 20))"
    using res by (simp add: vals Let_def lerp_def f_sub_def np_mean_def np_sum_def)
  moreover have "snd (propagation_cell ?g (\<lambda>i. 0) pool4 2 []) = [[Finite 8], [Finite 2]]"
    using w(2) by (simp add: ind pool4_def)
  ultimately have "propagation_cell ?g (\<lambda>i. 0) pool4 2 [] =
      (Inr (Finite 5, Finite (43 / 20), Finite (157 / 20)), [[Finite 8], [Finite 2]])"
    by (simp add: prod_eq_iff)
  then show ?thesis using a sel by simp
qed

end
